theory Spec2Isabelle
  imports Complex_Main
begin

section \<open>Constants (constants.ts)\<close>

text \<open>
  JavaScript numbers are modelled as reals where they hold coordinates and as integers
  where they hold \<^verbatim>\<open>Date.now()\<close> timestamps (whole milliseconds) or the score.
  All constants are small integers, and the player position and the vertical object
  positions only ever take integer values, so the arithmetic on them is exact in the
  source as well.
\<close>

definition GAME_WIDTH :: real where "GAME_WIDTH = 600"
definition GAME_HEIGHT :: real where "GAME_HEIGHT = 800"

definition PAUSE_COMBO_TIMEOUT :: int where "PAUSE_COMBO_TIMEOUT = 4000"

definition PLAYER_WIDTH :: real where "PLAYER_WIDTH = 60"
definition PLAYER_HEIGHT :: real where "PLAYER_HEIGHT = 20"
definition PLAYER_Y_POSITION :: real where
  "PLAYER_Y_POSITION = GAME_HEIGHT - PLAYER_HEIGHT - 20"
definition PLAYER_SPEED :: real where "PLAYER_SPEED = 8"

definition OBJECT_SIZE :: real where "OBJECT_SIZE = 25"
definition OBJECT_SPEED :: real where "OBJECT_SPEED = 4"
definition OBJECT_SPAWN_INTERVAL :: int where "OBJECT_SPAWN_INTERVAL = 500"

section \<open>Data model (types.ts)\<close>

datatype GameState = Ready | Active | Paused | GameOver

record PlayerState =
  x :: real
  width :: real
  height :: real

record FallingObject =
  id :: int
  x :: real
  y :: real
  size :: real

section \<open>Component state and the animation-frame queue\<close>

text \<open>
  The component \<^verbatim>\<open>App\<close> owns five React state cells and six refs. The two callbacks
  that are handed to \<^verbatim>\<open>requestAnimationFrame\<close> are named by \<open>Callback\<close>; the browser's
  list of pending animation-frame callbacks is the field \<open>rafQueue\<close>, and \<open>rafNext\<close> is the
  next handle the browser gives out (handles are positive). A ref declared
  \<^verbatim>\<open>useRef<number>()\<close> starts \<^verbatim>\<open>undefined\<close>, which is \<open>None\<close>.
\<close>

datatype Callback = GameLoopCb | AnimateComboBarCb

record AppState =
  gameState :: GameState
  player :: PlayerState
  objects :: "FallingObject list"
  score :: int
  pauseComboProgress :: real
  keysPressed :: "string set"
  lastObjectSpawn :: int
  gameLoopRef :: "nat option"
  lastComboPressTime :: int
  comboStartTimeRef :: int
  comboAnimationRef :: "nat option"
  rafQueue :: "(nat \<times> Callback) list"
  rafNext :: nat

definition requestAnimationFrame :: "Callback \<Rightarrow> AppState \<Rightarrow> nat \<times> AppState" where
  "requestAnimationFrame cb s =
     (rafNext s, s\<lparr>rafQueue := rafQueue s @ [(rafNext s, cb)], rafNext := rafNext s + 1\<rparr>)"

definition cancelAnimationFrame :: "nat \<Rightarrow> AppState \<Rightarrow> AppState" where
  "cancelAnimationFrame h s = s\<lparr>rafQueue := filter (\<lambda>e. fst e \<noteq> h) (rafQueue s)\<rparr>"

text \<open>
  The recurring pattern \<^verbatim>\<open>if (ref.current) cancelAnimationFrame(ref.current)\<close>:
  \<^verbatim>\<open>undefined\<close> and \<^verbatim>\<open>0\<close> are falsy.
\<close>

definition cancelIfSet :: "nat option \<Rightarrow> AppState \<Rightarrow> AppState" where
  "cancelIfSet r s =
     (case r of None \<Rightarrow> s | Some h \<Rightarrow> if h \<noteq> 0 then cancelAnimationFrame h s else s)"

section \<open>The handlers of App\<close>

definition initialPlayer :: PlayerState where
  "initialPlayer =
     \<lparr>PlayerState.x = GAME_WIDTH / 2 - PLAYER_WIDTH / 2,
      width = PLAYER_WIDTH, height = PLAYER_HEIGHT\<rparr>"

text \<open>\<^verbatim>\<open>resetGame\<close> (lines 95-101).\<close>

definition resetGame :: "AppState \<Rightarrow> AppState" where
  "resetGame s =
     s\<lparr>player := initialPlayer, objects := [], score := 0, keysPressed := {},
       gameState := Active\<rparr>"

text \<open>\<^verbatim>\<open>cleanupCombo\<close> (lines 103-109).\<close>

definition cleanupCombo :: "AppState \<Rightarrow> AppState" where
  "cleanupCombo s =
     (let s1 = s\<lparr>lastComboPressTime := 0\<rparr>;
          s2 = cancelIfSet (comboAnimationRef s1) s1
      in s2\<lparr>pauseComboProgress := 0\<rparr>)"

text \<open>\<^verbatim>\<open>resumeGame\<close> (lines 111-117).\<close>

definition resumeGame :: "AppState \<Rightarrow> AppState" where
  "resumeGame s =
     (if gameState s = Paused
      then (cleanupCombo (s\<lparr>keysPressed := {}\<rparr>))\<lparr>gameState := Active\<rparr>
      else s)"

text \<open>\<^verbatim>\<open>animateComboBar\<close> (lines 119-131); \<open>now\<close> is the value of \<^verbatim>\<open>Date.now()\<close>.\<close>

definition animateComboBar :: "int \<Rightarrow> AppState \<Rightarrow> AppState" where
  "animateComboBar now s =
     (let elapsed = now - comboStartTimeRef s;
          progress = max 0 (50 * (1 - real_of_int elapsed / real_of_int PAUSE_COMBO_TIMEOUT));
          s1 = s\<lparr>pauseComboProgress := progress\<rparr>
      in if progress > 0
         then (let (h, s2) = requestAnimationFrame AnimateComboBarCb s1
               in s2\<lparr>comboAnimationRef := Some h\<rparr>)
         else s1\<lparr>lastComboPressTime := 0\<rparr>)"

text \<open>
  \<^verbatim>\<open>handlePauseCombo\<close> (lines 133-155). The callback closes over \<^verbatim>\<open>gameState\<close>; it is
  re-created and re-registered whenever \<^verbatim>\<open>gameState\<close> changes, so it reads the current
  value.
\<close>

definition handlePauseCombo :: "int \<Rightarrow> AppState \<Rightarrow> AppState" where
  "handlePauseCombo now s =
     (if gameState s \<noteq> Active \<and> gameState s \<noteq> Paused then s
      else if now - lastComboPressTime s < PAUSE_COMBO_TIMEOUT
      then cleanupCombo
             (if gameState s = Active then s\<lparr>gameState := Paused\<rparr>
              else if gameState s = Paused then s\<lparr>gameState := Active\<rparr>
              else s)
      else (let s1 = s\<lparr>lastComboPressTime := now, comboStartTimeRef := now\<rparr>;
                s2 = cancelIfSet (comboAnimationRef s1) s1;
                (h, s3) = requestAnimationFrame AnimateComboBarCb s2
            in s3\<lparr>comboAnimationRef := Some h\<rparr>))"

subsection \<open>The game loop (lines 158-208)\<close>

text \<open>The updater passed to \<^verbatim>\<open>setPlayer\<close> (lines 165-171).\<close>

definition movePlayer :: "string set \<Rightarrow> PlayerState \<Rightarrow> PlayerState" where
  "movePlayer keys p =
     (let newX = PlayerState.x p;
          newX = (if ''ArrowLeft'' \<in> keys then newX - PLAYER_SPEED else newX);
          newX = (if ''ArrowRight'' \<in> keys then newX + PLAYER_SPEED else newX);
          newX = max 0 (min (GAME_WIDTH - PLAYER_WIDTH) newX)
      in p\<lparr>PlayerState.x := newX\<rparr>)"

text \<open>The object literal of lines 177-182; \<open>rnd\<close> is the value of \<^verbatim>\<open>Math.random()\<close>.\<close>

definition newObject :: "int \<Rightarrow> real \<Rightarrow> FallingObject" where
  "newObject now rnd =
     \<lparr>FallingObject.id = now, x = rnd * (GAME_WIDTH - OBJECT_SIZE),
      y = - OBJECT_SIZE, size = OBJECT_SIZE\<rparr>"

text \<open>The map and filter of lines 187-189.\<close>

definition updatedObjects :: "FallingObject list \<Rightarrow> FallingObject list" where
  "updatedObjects prevObjects =
     filter (\<lambda>obj. FallingObject.y obj < GAME_HEIGHT)
       (map (\<lambda>obj. obj\<lparr>FallingObject.y := FallingObject.y obj + OBJECT_SPEED\<rparr>) prevObjects)"

text \<open>The condition of lines 193-198, against the player position \<open>px\<close>.\<close>

definition overlaps :: "real \<Rightarrow> FallingObject \<Rightarrow> bool" where
  "overlaps px obj \<longleftrightarrow>
     FallingObject.y obj + FallingObject.size obj > PLAYER_Y_POSITION \<and>
     FallingObject.y obj < PLAYER_Y_POSITION + PLAYER_HEIGHT \<and>
     FallingObject.x obj + FallingObject.size obj > px \<and>
     FallingObject.x obj < px + PLAYER_WIDTH"

text \<open>
  The loop of lines 192-201: it visits every object and calls
  \<^verbatim>\<open>setGameState(GameState.GameOver)\<close> at each overlap; \<open>g\<close> is the game state so far.
\<close>

fun collisionDetection :: "real \<Rightarrow> FallingObject list \<Rightarrow> GameState \<Rightarrow> GameState" where
  "collisionDetection px [] g = g"
| "collisionDetection px (obj # rest) g =
     collisionDetection px rest (if overlaps px obj then GameOver else g)"

text \<open>Lines 160 and 207: \<^verbatim>\<open>gameLoopRef.current = requestAnimationFrame(gameLoop)\<close>.\<close>

definition requestGameLoop :: "AppState \<Rightarrow> AppState" where
  "requestGameLoop s =
     (let (h, s1) = requestAnimationFrame GameLoopCb s in s1\<lparr>gameLoopRef := Some h\<rparr>)"

text \<open>
  \<^verbatim>\<open>gameLoop\<close>. The callback closes over \<^verbatim>\<open>gameState\<close> and \<^verbatim>\<open>player\<close> of the render
  that created it; its dependency list \<^verbatim>\<open>[gameState, player.x]\<close> re-creates it, and the
  effect of lines 211-216 re-registers it, whenever one of the two changes, so at the
  start of a tick both equal the committed state \<open>s\<close>. The state setters only queue
  updates: the updater of \<^verbatim>\<open>setPlayer\<close> computes the new player from the committed one,
  while the updater of \<^verbatim>\<open>setObjects\<close> reads \<^verbatim>\<open>player.x\<close> from the closure, which is the
  committed \<open>PlayerState.x (player s)\<close>. All updates of one tick are applied together.
\<close>

definition gameLoop :: "int \<Rightarrow> real \<Rightarrow> AppState \<Rightarrow> AppState" where
  "gameLoop now rnd s =
     (if gameState s \<noteq> Active then requestGameLoop s
      else
        let newPlayer = movePlayer (keysPressed s) (player s);
            spawn = (now - lastObjectSpawn s > OBJECT_SPAWN_INTERVAL);
            prevObjects = (if spawn then objects s @ [newObject now rnd] else objects s);
            updated = updatedObjects prevObjects;
            newGameState = collisionDetection (PlayerState.x (player s)) updated (gameState s)
        in requestGameLoop
             (s\<lparr>player := newPlayer,
                lastObjectSpawn := (if spawn then now else lastObjectSpawn s),
                objects := updated,
                gameState := newGameState,
                score := score s + 1\<rparr>))"

subsection \<open>Keyboard handlers (lines 219-228)\<close>

definition handleKeyDown :: "string \<Rightarrow> bool \<Rightarrow> int \<Rightarrow> AppState \<Rightarrow> AppState" where
  "handleKeyDown key repeat now s =
     (if repeat then s
      else
        let s1 = s\<lparr>keysPressed := insert key (keysPressed s)\<rparr>
        in if ''ArrowLeft'' \<in> keysPressed s1 \<and> ''ArrowRight'' \<in> keysPressed s1
           then handlePauseCombo now s1
           else s1)"

definition handleKeyUp :: "string \<Rightarrow> AppState \<Rightarrow> AppState" where
  "handleKeyUp key s = s\<lparr>keysPressed := keysPressed s - {key}\<rparr>"

subsection \<open>The overlay button (renderContent, lines 240-251)\<close>

text \<open>
  The overlay and its button exist only in the states Ready, GameOver and Paused; the
  button is bound to \<^verbatim>\<open>resetGame\<close> in the first two and to \<^verbatim>\<open>resumeGame\<close> in the third.
  While Active there is no button to click.
\<close>

definition onButtonClick :: "AppState \<Rightarrow> AppState" where
  "onButtonClick s =
     (case gameState s of
        Ready \<Rightarrow> resetGame s
      | GameOver \<Rightarrow> resetGame s
      | Paused \<Rightarrow> resumeGame s
      | Active \<Rightarrow> s)"

section \<open>Effects, events and reachable states\<close>

text \<open>
  After a handler has run, React renders and runs the effects whose dependencies changed.
  The effect of lines 211-216 depends on \<^verbatim>\<open>gameLoop\<close>, which changes with \<^verbatim>\<open>gameState\<close> or
  \<^verbatim>\<open>player.x\<close>: its cleanup cancels the frame in \<^verbatim>\<open>gameLoopRef\<close> and its body requests a
  new one. The effect of lines 219-238 depends on \<^verbatim>\<open>handlePauseCombo\<close>, which changes
  with \<^verbatim>\<open>gameState\<close>: its cleanup cancels the frame in \<^verbatim>\<open>comboAnimationRef\<close> (the listeners
  it removes are added again by its body). Cleanups run before bodies. \<open>old\<close> is the state
  the previous render committed.
\<close>

definition commitEffects :: "AppState \<Rightarrow> AppState \<Rightarrow> AppState" where
  "commitEffects old s =
     (let loopChanged = (gameState s \<noteq> gameState old \<or>
                         PlayerState.x (player s) \<noteq> PlayerState.x (player old));
          comboChanged = (gameState s \<noteq> gameState old);
          s1 = (if loopChanged then cancelIfSet (gameLoopRef s) s else s);
          s2 = (if comboChanged then cancelIfSet (comboAnimationRef s1) s1 else s1)
      in if loopChanged then requestGameLoop s2 else s2)"

text \<open>
  What can happen to the mounted component: a key goes down (with the event's repeat flag
  and the clock), a key goes up, the overlay button is clicked, or the browser runs the
  pending animation-frame callback with a given handle (with the clock and the random
  number that the callback draws).
\<close>

datatype Event =
    KeyDown string bool int
  | KeyUp string
  | Click
  | Frame nat int real

definition runFrame :: "nat \<Rightarrow> int \<Rightarrow> real \<Rightarrow> AppState \<Rightarrow> AppState" where
  "runFrame h now rnd s =
     (case map_of (rafQueue s) h of
        None \<Rightarrow> s
      | Some cb \<Rightarrow>
          let s1 = cancelAnimationFrame h s
          in (case cb of
                GameLoopCb \<Rightarrow> gameLoop now rnd s1
              | AnimateComboBarCb \<Rightarrow> animateComboBar now s1))"

fun handle :: "Event \<Rightarrow> AppState \<Rightarrow> AppState" where
  "handle (KeyDown key repeat now) s = handleKeyDown key repeat now s"
| "handle (KeyUp key) s = handleKeyUp key s"
| "handle Click s = onButtonClick s"
| "handle (Frame h now rnd) s = runFrame h now rnd s"

definition step :: "Event \<Rightarrow> AppState \<Rightarrow> AppState" where
  "step e s = commitEffects s (handle e s)"

text \<open>The state after mounting: the initial values of lines 82-93 and the first effect run.\<close>

definition mounted :: AppState where
  "mounted =
     \<lparr>gameState = Ready, player = initialPlayer, objects = [], score = 0,
      pauseComboProgress = 0, keysPressed = {}, lastObjectSpawn = 0,
      gameLoopRef = Some 1, lastComboPressTime = 0, comboStartTimeRef = 0,
      comboAnimationRef = None, rafQueue = [(1, GameLoopCb)], rafNext = 2\<rparr>"

fun run :: "Event list \<Rightarrow> AppState \<Rightarrow> AppState" where
  "run [] s = s"
| "run (e # es) s = run es (step e s)"

inductive reachable :: "AppState \<Rightarrow> bool" where
  reachable_mounted: "reachable mounted"
| reachable_step: "reachable s \<Longrightarrow> reachable (step e s)"

section \<open>Notions used in the statements\<close>

text \<open>
  The clamp of a value to an interval and the indicator of a held key, as the
  specification words the movement contract.
\<close>

definition clamp :: "real \<Rightarrow> real \<Rightarrow> real \<Rightarrow> real" where
  "clamp v lo hi = (if v < lo then lo else if hi < v then hi else v)"

definition held :: "string \<Rightarrow> string set \<Rightarrow> real" where
  "held k keys = (if k \<in> keys then 1 else 0)"

text \<open>
  The invariant of the object list: every object is above the lower edge of the field,
  carries an identifier that is at most the time of the last spawn, and identifiers are
  pairwise distinct.
\<close>

definition objectsInv :: "AppState \<Rightarrow> bool" where
  "objectsInv s \<longleftrightarrow>
     (\<forall>obj\<in>set (objects s).
        FallingObject.y obj < GAME_HEIGHT \<and> FallingObject.id obj \<le> lastObjectSpawn s) \<and>
     distinct (map FallingObject.id (objects s))"

section \<open>A concrete session\<close>

text \<open>
  One session, used to instantiate the statements below. At clock \<open>t0\<close> the game is
  started and both arrow keys go down, which arms the pause combo. Then 190 animation
  frames follow, 16 ms apart; in each the game loop runs first and the combo bar
  animation second. Every spawn draws the random number \<open>66/115\<close>, which puts the object
  at \<open>x = 330\<close>, flush with the right edge of the player standing at \<open>x = 270\<close>.
  The session ends in the state \<open>nearMiss\<close>, with the oldest object at \<open>y = 735\<close>.
\<close>

definition t0 :: int where "t0 = 1700000000000"

definition frames :: "nat \<Rightarrow> Event list" where
  "frames n =
     concat (map (\<lambda>k. [Frame (2 + 2 * k) (t0 + 16 * int (k + 1)) (66 / 115),
                        Frame (3 + 2 * k) (t0 + 16 * int (k + 1)) 0]) [0..<n])"

definition armedTrace :: "Event list" where
  "armedTrace =
     [Click, KeyDown ''ArrowLeft'' False t0, KeyDown ''ArrowRight'' False t0] @ frames 190"

definition nearMiss :: AppState where
  "nearMiss =
     \<lparr>gameState = Active,
      player = \<lparr>PlayerState.x = 270, width = 60, height = 20\<rparr>,
      objects =
        [\<lparr>FallingObject.id = 1700000000016, x = 330, y = 735, size = 25\<rparr>,
         \<lparr>FallingObject.id = 1700000000528, x = 330, y = 607, size = 25\<rparr>,
         \<lparr>FallingObject.id = 1700000001040, x = 330, y = 479, size = 25\<rparr>,
         \<lparr>FallingObject.id = 1700000001552, x = 330, y = 351, size = 25\<rparr>,
         \<lparr>FallingObject.id = 1700000002064, x = 330, y = 223, size = 25\<rparr>,
         \<lparr>FallingObject.id = 1700000002576, x = 330, y = 95, size = 25\<rparr>],
      score = 190, pauseComboProgress = 12,
      keysPressed = {''ArrowRight'', ''ArrowLeft''},
      lastObjectSpawn = 1700000002576, gameLoopRef = Some 382,
      lastComboPressTime = 1700000000000, comboStartTimeRef = 1700000000000,
      comboAnimationRef = Some 383,
      rafQueue = [(382, GameLoopCb), (383, AnimateComboBarCb)],
      rafNext = 384\<rparr>"

text \<open>
  From \<open>nearMiss\<close>: releasing ArrowLeft leaves ArrowRight held (\<open>sideApproach\<close>); the next
  frame moves the player to \<open>x = 278\<close> (\<open>lastTick\<close>); the frame after that ends the game
  (\<open>gameOverArmed\<close>). Alternatively, a second press of the combo pauses (\<open>pausedGame\<close>).
  In \<open>backOff\<close> the player, standing at 278 in \<open>lastTick\<close>, has let go of ArrowRight and
  holds ArrowLeft instead.
\<close>

definition sideApproach :: AppState where
  "sideApproach = step (KeyUp ''ArrowLeft'') nearMiss"

definition lastTick :: AppState where
  "lastTick = run [Frame 382 (t0 + 3056) 0, Frame 383 (t0 + 3056) 0] sideApproach"

definition gameOverArmed :: AppState where
  "gameOverArmed = step (Frame 385 (t0 + 3072) 0) lastTick"

definition pausedGame :: AppState where
  "pausedGame =
     run [KeyUp ''ArrowRight'', KeyDown ''ArrowRight'' False (t0 + 3050)] nearMiss"

definition backOff :: AppState where
  "backOff = run [KeyUp ''ArrowRight'', KeyDown ''ArrowLeft'' False (t0 + 3060)] lastTick"

section \<open>Basic facts\<close>

lemmas game_constants =
  GAME_WIDTH_def GAME_HEIGHT_def PAUSE_COMBO_TIMEOUT_def PLAYER_WIDTH_def
  PLAYER_HEIGHT_def PLAYER_Y_POSITION_def PLAYER_SPEED_def OBJECT_SIZE_def
  OBJECT_SPEED_def OBJECT_SPAWN_INTERVAL_def

lemmas raf_defs = requestAnimationFrame_def cancelAnimationFrame_def cancelIfSet_def
  requestGameLoop_def

lemmas eval_defs = step_def onButtonClick_def resetGame_def resumeGame_def commitEffects_def
  mounted_def initialPlayer_def raf_defs Let_def game_constants runFrame_def gameLoop_def
  movePlayer_def updatedObjects_def newObject_def overlaps_def handleKeyDown_def
  handleKeyUp_def handlePauseCombo_def cleanupCombo_def animateComboBar_def t0_def

lemma cancelIfSet_fields [simp]:
  "gameState (cancelIfSet r s) = gameState s"
  "player (cancelIfSet r s) = player s"
  "objects (cancelIfSet r s) = objects s"
  "score (cancelIfSet r s) = score s"
  "pauseComboProgress (cancelIfSet r s) = pauseComboProgress s"
  "keysPressed (cancelIfSet r s) = keysPressed s"
  "lastObjectSpawn (cancelIfSet r s) = lastObjectSpawn s"
  "gameLoopRef (cancelIfSet r s) = gameLoopRef s"
  "lastComboPressTime (cancelIfSet r s) = lastComboPressTime s"
  "comboStartTimeRef (cancelIfSet r s) = comboStartTimeRef s"
  "comboAnimationRef (cancelIfSet r s) = comboAnimationRef s"
  "rafNext (cancelIfSet r s) = rafNext s"
  by (simp_all add: raf_defs split: option.splits)

lemma cancelAnimationFrame_fields [simp]:
  "gameState (cancelAnimationFrame h s) = gameState s"
  "player (cancelAnimationFrame h s) = player s"
  "objects (cancelAnimationFrame h s) = objects s"
  "score (cancelAnimationFrame h s) = score s"
  "pauseComboProgress (cancelAnimationFrame h s) = pauseComboProgress s"
  "keysPressed (cancelAnimationFrame h s) = keysPressed s"
  "lastObjectSpawn (cancelAnimationFrame h s) = lastObjectSpawn s"
  "gameLoopRef (cancelAnimationFrame h s) = gameLoopRef s"
  "lastComboPressTime (cancelAnimationFrame h s) = lastComboPressTime s"
  "comboStartTimeRef (cancelAnimationFrame h s) = comboStartTimeRef s"
  "comboAnimationRef (cancelAnimationFrame h s) = comboAnimationRef s"
  "rafNext (cancelAnimationFrame h s) = rafNext s"
  by (simp_all add: raf_defs)

lemma requestGameLoop_fields [simp]:
  "gameState (requestGameLoop s) = gameState s"
  "player (requestGameLoop s) = player s"
  "objects (requestGameLoop s) = objects s"
  "score (requestGameLoop s) = score s"
  "pauseComboProgress (requestGameLoop s) = pauseComboProgress s"
  "keysPressed (requestGameLoop s) = keysPressed s"
  "lastObjectSpawn (requestGameLoop s) = lastObjectSpawn s"
  "lastComboPressTime (requestGameLoop s) = lastComboPressTime s"
  "comboStartTimeRef (requestGameLoop s) = comboStartTimeRef s"
  "comboAnimationRef (requestGameLoop s) = comboAnimationRef s"
  by (simp_all add: raf_defs)

lemma commitEffects_fields [simp]:
  "gameState (commitEffects old s) = gameState s"
  "player (commitEffects old s) = player s"
  "objects (commitEffects old s) = objects s"
  "score (commitEffects old s) = score s"
  "pauseComboProgress (commitEffects old s) = pauseComboProgress s"
  "keysPressed (commitEffects old s) = keysPressed s"
  "lastObjectSpawn (commitEffects old s) = lastObjectSpawn s"
  "lastComboPressTime (commitEffects old s) = lastComboPressTime s"
  "comboStartTimeRef (commitEffects old s) = comboStartTimeRef s"
  "comboAnimationRef (commitEffects old s) = comboAnimationRef s"
  by (simp_all add: commitEffects_def Let_def)

lemma cleanupCombo_fields [simp]:
  "gameState (cleanupCombo s) = gameState s"
  "player (cleanupCombo s) = player s"
  "objects (cleanupCombo s) = objects s"
  "score (cleanupCombo s) = score s"
  "keysPressed (cleanupCombo s) = keysPressed s"
  "lastObjectSpawn (cleanupCombo s) = lastObjectSpawn s"
  "comboStartTimeRef (cleanupCombo s) = comboStartTimeRef s"
  "lastComboPressTime (cleanupCombo s) = 0"
  "pauseComboProgress (cleanupCombo s) = 0"
  by (simp_all add: cleanupCombo_def Let_def)

lemma collisionDetection_iff:
  "collisionDetection px objs g = (if \<exists>obj\<in>set objs. overlaps px obj then GameOver else g)"
  by (induction objs arbitrary: g) auto

lemma handlePauseCombo_game [simp]:
  "player (handlePauseCombo now s) = player s"
  "objects (handlePauseCombo now s) = objects s"
  "score (handlePauseCombo now s) = score s"
  "keysPressed (handlePauseCombo now s) = keysPressed s"
  "lastObjectSpawn (handlePauseCombo now s) = lastObjectSpawn s"
  by (simp_all add: handlePauseCombo_def Let_def requestAnimationFrame_def split: prod.splits)

lemma animateComboBar_game [simp]:
  "gameState (animateComboBar now s) = gameState s"
  "player (animateComboBar now s) = player s"
  "objects (animateComboBar now s) = objects s"
  "score (animateComboBar now s) = score s"
  "keysPressed (animateComboBar now s) = keysPressed s"
  "lastObjectSpawn (animateComboBar now s) = lastObjectSpawn s"
  by (simp_all add: animateComboBar_def Let_def requestAnimationFrame_def split: prod.splits)

lemma objects_gameLoop:
  "objects (gameLoop now rnd s) =
     (if gameState s \<noteq> Active then objects s
      else updatedObjects (if now - lastObjectSpawn s > OBJECT_SPAWN_INTERVAL
                           then objects s @ [newObject now rnd] else objects s))"
  by (simp add: gameLoop_def Let_def)

lemma lastObjectSpawn_gameLoop:
  "lastObjectSpawn (gameLoop now rnd s) =
     (if gameState s = Active \<and> now - lastObjectSpawn s > OBJECT_SPAWN_INTERVAL
      then now else lastObjectSpawn s)"
  by (simp add: gameLoop_def Let_def)

lemma objects_step:
  "objects (step e s) =
    (case e of
       KeyDown k r n \<Rightarrow> objects s
     | KeyUp k \<Rightarrow> objects s
     | Click \<Rightarrow> (if gameState s = Ready \<or> gameState s = GameOver then [] else objects s)
     | Frame h now rnd \<Rightarrow>
         (if map_of (rafQueue s) h = Some GameLoopCb then objects (gameLoop now rnd s)
          else objects s))"
  by (simp add: step_def handleKeyDown_def handleKeyUp_def onButtonClick_def resetGame_def
      resumeGame_def runFrame_def objects_gameLoop Let_def
      split: Event.splits GameState.splits option.splits Callback.splits)

lemma lastObjectSpawn_step:
  "lastObjectSpawn (step e s) =
    (case e of
       Frame h now rnd \<Rightarrow>
         (if map_of (rafQueue s) h = Some GameLoopCb then lastObjectSpawn (gameLoop now rnd s)
          else lastObjectSpawn s)
     | _ \<Rightarrow> lastObjectSpawn s)"
  by (simp add: step_def handleKeyDown_def handleKeyUp_def onButtonClick_def resetGame_def
      resumeGame_def runFrame_def lastObjectSpawn_gameLoop Let_def
      split: Event.splits GameState.splits option.splits Callback.splits)

lemma updatedObjects_filter:
  "updatedObjects xs =
     map (\<lambda>obj. obj\<lparr>FallingObject.y := FallingObject.y obj + OBJECT_SPEED\<rparr>)
       (filter (\<lambda>obj. FallingObject.y obj + OBJECT_SPEED < GAME_HEIGHT) xs)"
  by (simp add: updatedObjects_def filter_map comp_def)

lemma set_updatedObjects:
  "set (updatedObjects xs) =
     (\<lambda>obj. obj\<lparr>FallingObject.y := FallingObject.y obj + OBJECT_SPEED\<rparr>) `
       {obj \<in> set xs. FallingObject.y obj + OBJECT_SPEED < GAME_HEIGHT}"
  by (simp add: updatedObjects_filter)

lemma ids_updatedObjects:
  "map FallingObject.id (updatedObjects xs) =
     map FallingObject.id (filter (\<lambda>obj. FallingObject.y obj + OBJECT_SPEED < GAME_HEIGHT) xs)"
  by (simp add: updatedObjects_filter comp_def)

lemma updatedObjects_append:
  "updatedObjects (xs @ ys) = updatedObjects xs @ updatedObjects ys"
  by (simp add: updatedObjects_def)

lemma updatedObjects_newObject:
  "updatedObjects [newObject now rnd] =
     [(newObject now rnd)\<lparr>FallingObject.y := - OBJECT_SIZE + OBJECT_SPEED\<rparr>]"
  by (simp add: updatedObjects_def newObject_def game_constants)

lemma objectsInv_gameLoop:
  assumes "objectsInv s"
  shows "objectsInv (gameLoop now rnd s)"
proof (cases "gameState s = Active")
  case False
  then show ?thesis using assms
    by (simp add: objectsInv_def objects_gameLoop lastObjectSpawn_gameLoop)
next
  case True
  show ?thesis
  proof (cases "now - lastObjectSpawn s > OBJECT_SPAWN_INTERVAL")
    case False
    with True assms show ?thesis
      by (auto simp: objectsInv_def objects_gameLoop lastObjectSpawn_gameLoop
          set_updatedObjects ids_updatedObjects distinct_map_filter)
  next
    case spawn: True
    have lt: "lastObjectSpawn s < now" using spawn by (simp add: game_constants)
    have "\<forall>obj\<in>set (objects s). FallingObject.id obj \<noteq> now"
      using assms lt by (auto simp: objectsInv_def)
    then have "now \<notin> FallingObject.id ` set (objects s)" by auto
    then have d: "distinct (map FallingObject.id (objects s @ [newObject now rnd]))"
      using assms by (simp add: objectsInv_def newObject_def)
    have "distinct (map FallingObject.id (updatedObjects (objects s @ [newObject now rnd])))"
      unfolding ids_updatedObjects by (rule distinct_map_filter [OF d])
    moreover have "\<forall>obj\<in>set (updatedObjects (objects s @ [newObject now rnd])).
        FallingObject.y obj < GAME_HEIGHT \<and> FallingObject.id obj \<le> now"
      using assms lt by (auto simp: objectsInv_def set_updatedObjects newObject_def)
    ultimately show ?thesis using True spawn
      by (simp add: objectsInv_def objects_gameLoop lastObjectSpawn_gameLoop)
  qed
qed

lemma objectsInv_step:
  assumes "objectsInv s"
  shows "objectsInv (step e s)"
proof (cases e)
  case (Frame h now rnd)
  then show ?thesis using assms objectsInv_gameLoop [OF assms, of now rnd]
    by (simp add: objectsInv_def objects_step lastObjectSpawn_step)
qed (use assms in \<open>auto simp: objectsInv_def objects_step lastObjectSpawn_step\<close>)

lemma objectsInv_mounted: "objectsInv mounted"
  by (simp add: objectsInv_def mounted_def)

lemma reachable_objectsInv: "reachable s \<Longrightarrow> objectsInv s"
  by (induction rule: reachable.induct) (simp_all add: objectsInv_mounted objectsInv_step)

lemma reachable_run: "reachable s \<Longrightarrow> reachable (run es s)"
  by (induction es arbitrary: s) (simp_all add: reachable_step)

text \<open>An identifier that has been issued already and is absent stays absent.\<close>

lemma absent_gameLoop:
  assumes "i \<le> lastObjectSpawn s" "i \<notin> FallingObject.id ` set (objects s)"
  shows "i \<le> lastObjectSpawn (gameLoop now rnd s) \<and>
         i \<notin> FallingObject.id ` set (objects (gameLoop now rnd s))"
  using assms
  by (auto simp: objects_gameLoop lastObjectSpawn_gameLoop set_updatedObjects newObject_def
      game_constants)

lemma absent_step:
  assumes "i \<le> lastObjectSpawn s" "i \<notin> FallingObject.id ` set (objects s)"
  shows "i \<le> lastObjectSpawn (step e s) \<and> i \<notin> FallingObject.id ` set (objects (step e s))"
proof (cases e)
  case (Frame h now rnd)
  then show ?thesis using assms absent_gameLoop [OF assms, of now rnd]
    by (simp add: objects_step lastObjectSpawn_step)
qed (use assms in \<open>auto simp: objects_step lastObjectSpawn_step\<close>)

lemma absent_run:
  assumes "i \<le> lastObjectSpawn s" "i \<notin> FallingObject.id ` set (objects s)"
  shows "i \<notin> FallingObject.id ` set (objects (run es s))"
  using assms
proof (induction es arbitrary: s)
  case Nil
  then show ?case by simp
next
  case (Cons e es)
  from absent_step [OF Cons.prems, of e] show ?case
    by (simp add: Cons.IH)
qed

lemma nearMiss_reached: "run armedTrace mounted = nearMiss"
  by (simp add: armedTrace_def frames_def upt_conv_Cons nearMiss_def eval_defs)

lemma reachable_nearMiss: "reachable nearMiss"
  using reachable_run [OF reachable_mounted, of armedTrace] by (simp add: nearMiss_reached)

lemma player_gameLoop:
  "player (gameLoop now rnd s) =
     (if gameState s = Active then movePlayer (keysPressed s) (player s) else player s)"
  by (simp add: gameLoop_def Let_def)

lemma gameState_gameLoop:
  "gameState (gameLoop now rnd s) =
     (if gameState s = Active
      then collisionDetection (PlayerState.x (player s)) (objects (gameLoop now rnd s)) Active
      else gameState s)"
  by (simp add: gameLoop_def Let_def)

lemma movePlayer_range:
  "0 \<le> PlayerState.x (movePlayer keys p) \<and>
   PlayerState.x (movePlayer keys p) \<le> GAME_WIDTH - PLAYER_WIDTH"
  by (simp add: movePlayer_def Let_def game_constants)

text \<open>
  The player never leaves the field.
\<close>

lemma reachable_player_range:
  "reachable s \<Longrightarrow>
     0 \<le> PlayerState.x (player s) \<and> PlayerState.x (player s) \<le> GAME_WIDTH - PLAYER_WIDTH"
proof (induction rule: reachable.induct)
  case reachable_mounted
  show ?case by (simp add: mounted_def initialPlayer_def game_constants)
next
  case (reachable_step s e)
  show ?case
  proof (cases e)
    case (KeyDown k r n)
    then show ?thesis using reachable_step.IH
      by (simp add: step_def handleKeyDown_def Let_def)
  next
    case (KeyUp k)
    then show ?thesis using reachable_step.IH by (simp add: step_def handleKeyUp_def)
  next
    case Click
    then show ?thesis using reachable_step.IH
      by (simp add: step_def onButtonClick_def resetGame_def resumeGame_def initialPlayer_def
          game_constants split: GameState.splits)
  next
    case (Frame h now rnd)
    then show ?thesis
      using reachable_step.IH movePlayer_range [of "keysPressed s" "player s"]
      by (simp add: step_def runFrame_def Let_def player_gameLoop
          split: option.splits Callback.splits)
  qed
qed

text \<open>
  The states of the concrete session are reachable, and evaluate to the following.
\<close>

lemma reachable_sideApproach: "reachable sideApproach"
  unfolding sideApproach_def by (rule reachable_step [OF reachable_nearMiss])

lemma reachable_lastTick: "reachable lastTick"
  unfolding lastTick_def by (rule reachable_run [OF reachable_sideApproach])

lemma reachable_gameOverArmed: "reachable gameOverArmed"
  unfolding gameOverArmed_def by (rule reachable_step [OF reachable_lastTick])

lemma reachable_pausedGame: "reachable pausedGame"
  unfolding pausedGame_def by (rule reachable_run [OF reachable_nearMiss])

lemma sideApproach_eq: "sideApproach = nearMiss\<lparr>keysPressed := {''ArrowRight''}\<rparr>"
  by (auto simp: sideApproach_def nearMiss_def eval_defs)

lemma lastTick_eq:
  "lastTick =
     \<lparr>gameState = Active,
      player = \<lparr>PlayerState.x = 278, width = 60, height = 20\<rparr>,
      objects =
        [\<lparr>FallingObject.id = 1700000000016, x = 330, y = 739, size = 25\<rparr>,
         \<lparr>FallingObject.id = 1700000000528, x = 330, y = 611, size = 25\<rparr>,
         \<lparr>FallingObject.id = 1700000001040, x = 330, y = 483, size = 25\<rparr>,
         \<lparr>FallingObject.id = 1700000001552, x = 330, y = 355, size = 25\<rparr>,
         \<lparr>FallingObject.id = 1700000002064, x = 330, y = 227, size = 25\<rparr>,
         \<lparr>FallingObject.id = 1700000002576, x = 330, y = 99, size = 25\<rparr>],
      score = 191, pauseComboProgress = 59 / 5,
      keysPressed = {''ArrowRight''},
      lastObjectSpawn = 1700000002576, gameLoopRef = Some 385,
      lastComboPressTime = 1700000000000, comboStartTimeRef = 1700000000000,
      comboAnimationRef = Some 386,
      rafQueue = [(385, GameLoopCb), (386, AnimateComboBarCb)],
      rafNext = 387\<rparr>"
  by (simp add: lastTick_def sideApproach_eq nearMiss_def eval_defs)

lemma gameOverArmed_eq:
  "gameOverArmed =
     \<lparr>gameState = GameOver,
      player = \<lparr>PlayerState.x = 286, width = 60, height = 20\<rparr>,
      objects =
        [\<lparr>FallingObject.id = 1700000000016, x = 330, y = 743, size = 25\<rparr>,
         \<lparr>FallingObject.id = 1700000000528, x = 330, y = 615, size = 25\<rparr>,
         \<lparr>FallingObject.id = 1700000001040, x = 330, y = 487, size = 25\<rparr>,
         \<lparr>FallingObject.id = 1700000001552, x = 330, y = 359, size = 25\<rparr>,
         \<lparr>FallingObject.id = 1700000002064, x = 330, y = 231, size = 25\<rparr>,
         \<lparr>FallingObject.id = 1700000002576, x = 330, y = 103, size = 25\<rparr>],
      score = 192, pauseComboProgress = 59 / 5,
      keysPressed = {''ArrowRight''},
      lastObjectSpawn = 1700000002576, gameLoopRef = Some 388,
      lastComboPressTime = 1700000000000, comboStartTimeRef = 1700000000000,
      comboAnimationRef = Some 386,
      rafQueue = [(388, GameLoopCb)],
      rafNext = 389\<rparr>"
  by (simp add: gameOverArmed_def lastTick_eq eval_defs)

lemma pausedGame_eq:
  "pausedGame =
     nearMiss\<lparr>gameState := Paused, pauseComboProgress := 0, lastComboPressTime := 0,
       gameLoopRef := Some 384, rafQueue := [(384, GameLoopCb)], rafNext := 385\<rparr>"
  by (simp add: pausedGame_def nearMiss_def eval_defs)

lemma reachable_backOff: "reachable backOff"
  unfolding backOff_def by (rule reachable_run [OF reachable_lastTick])

lemma backOff_eq:
  "backOff =
     \<lparr>gameState = Active,
      player = \<lparr>PlayerState.x = 278, width = 60, height = 20\<rparr>,
      objects =
        [\<lparr>FallingObject.id = 1700000000016, x = 330, y = 739, size = 25\<rparr>,
         \<lparr>FallingObject.id = 1700000000528, x = 330, y = 611, size = 25\<rparr>,
         \<lparr>FallingObject.id = 1700000001040, x = 330, y = 483, size = 25\<rparr>,
         \<lparr>FallingObject.id = 1700000001552, x = 330, y = 355, size = 25\<rparr>,
         \<lparr>FallingObject.id = 1700000002064, x = 330, y = 227, size = 25\<rparr>,
         \<lparr>FallingObject.id = 1700000002576, x = 330, y = 99, size = 25\<rparr>],
      score = 191, pauseComboProgress = 59 / 5,
      keysPressed = {''ArrowLeft''},
      lastObjectSpawn = 1700000002576, gameLoopRef = Some 385,
      lastComboPressTime = 1700000000000, comboStartTimeRef = 1700000000000,
      comboAnimationRef = Some 386,
      rafQueue = [(385, GameLoopCb), (386, AnimateComboBarCb)],
      rafNext = 387\<rparr>"
  by (auto simp: backOff_def lastTick_eq eval_defs)

lemma cleanupCombo_cancels:
  "comboAnimationRef s = Some h \<Longrightarrow> h \<noteq> 0 \<Longrightarrow> h \<notin> fst ` set (rafQueue (cleanupCombo s))"
  by (auto simp: cleanupCombo_def Let_def cancelIfSet_def cancelAnimationFrame_def)

lemma objects_step_gameLoop:
  "map_of (rafQueue s) h = Some GameLoopCb \<Longrightarrow>
     objects (step (Frame h now rnd) s) = objects (gameLoop now rnd s) \<and>
     lastObjectSpawn (step (Frame h now rnd) s) = lastObjectSpawn (gameLoop now rnd s)"
  by (simp add: objects_step lastObjectSpawn_step)

text \<open>
  An object that an Active tick drops leaves no object with its identifier behind.
\<close>

lemma removed_id_absent:
  assumes inv: "objectsInv s" and act: "gameState s = Active"
    and obj: "obj \<in> set (objects s)"
    and out: "FallingObject.y obj + OBJECT_SPEED \<ge> GAME_HEIGHT"
  shows "FallingObject.id obj \<le> lastObjectSpawn (gameLoop now rnd s) \<and>
         FallingObject.id obj \<notin> FallingObject.id ` set (objects (gameLoop now rnd s))"
proof -
  have le: "FallingObject.id obj \<le> lastObjectSpawn s"
    using inv obj by (simp add: objectsInv_def)
  have inj: "inj_on FallingObject.id (set (objects s))"
    using inv by (simp add: objectsInv_def distinct_map)
  have old: "o2 = obj" if "o2 \<in> set (objects s)" "FallingObject.id o2 = FallingObject.id obj" for o2
    using inj that obj by (auto dest: inj_onD)
  have "FallingObject.id obj \<notin> FallingObject.id ` set (objects (gameLoop now rnd s))"
    using act out le old
    by (auto simp: objects_gameLoop set_updatedObjects newObject_def game_constants)
  moreover have "FallingObject.id obj \<le> lastObjectSpawn (gameLoop now rnd s)"
    using le by (auto simp: lastObjectSpawn_gameLoop game_constants)
  ultimately show ?thesis by simp
qed

section \<open>The claims\<close>

subsection \<open>C1: restart and the pause combo\<close>

text \<open>
  Claim C1 says that after \<^verbatim>\<open>resetGame\<close> the pause-combo state is fully reset. The code
  does not do that: \<^verbatim>\<open>resetGame\<close> never calls \<^verbatim>\<open>cleanupCombo\<close> (as \<^verbatim>\<open>resumeGame\<close> does).
  In the concrete session the combo is armed at \<open>t0\<close> and the game ends 3072 ms later;
  clicking Restart then leaves \<open>lastComboPressTime = t0\<close> and the progress at 11.8, and
  the next single press of the combo, still inside the timeout, pauses the new game.
\<close>

theorem restart_keeps_combo_state:
  "gameState gameOverArmed = GameOver \<and>
   lastComboPressTime gameOverArmed = t0 \<and>
   pauseComboProgress gameOverArmed = 59 / 5 \<and>
   lastComboPressTime (resetGame gameOverArmed) = t0 \<and>
   pauseComboProgress (resetGame gameOverArmed) = 59 / 5 \<and>
   gameState (step Click gameOverArmed) = Active \<and>
   score (step Click gameOverArmed) = 0 \<and>
   lastComboPressTime (step Click gameOverArmed) = t0 \<and>
   pauseComboProgress (step Click gameOverArmed) = 59 / 5 \<and>
   rafQueue (step Click gameOverArmed) = [(389, GameLoopCb)] \<and>
   gameState (run [Click, KeyDown ''ArrowLeft'' False (t0 + 3400),
                   KeyDown ''ArrowRight'' False (t0 + 3500)] gameOverArmed) = Paused"
  by (simp add: gameOverArmed_eq eval_defs)

theorem restart_keeps_combo_state_witness:
  "lastComboPressTime (step Click gameOverArmed) \<noteq> 0 \<and>
   pauseComboProgress (step Click gameOverArmed) \<noteq> 0"
  using restart_keeps_combo_state by (simp add: t0_def)

subsection \<open>C2: which player position the collision check reads\<close>

text \<open>
  Claim C2 says that the collision check of a tick reads the position that the same
  tick's movement step produced. It does not. In \<open>sideApproach\<close> the player stands at 270
  with ArrowRight held and an object at \<open>x = 330\<close> is about to enter the player's row. The
  tick moves the player to 278 and the object to \<open>y = 739\<close>; the two rectangles now
  overlap, yet the state stays Active, because the check compared against 270.
\<close>

theorem collision_check_same_tick_counterexample:
  "gameState sideApproach = Active \<and>
   PlayerState.x (player sideApproach) = 270 \<and>
   PlayerState.x (player (gameLoop (t0 + 3056) 0 sideApproach)) = 278 \<and>
   hd (objects (gameLoop (t0 + 3056) 0 sideApproach)) =
     \<lparr>FallingObject.id = 1700000000016, x = 330, y = 739, size = 25\<rparr> \<and>
   overlaps (PlayerState.x (player (gameLoop (t0 + 3056) 0 sideApproach)))
     (hd (objects (gameLoop (t0 + 3056) 0 sideApproach))) \<and>
   gameState (gameLoop (t0 + 3056) 0 sideApproach) = Active"
  by (simp add: sideApproach_eq nearMiss_def eval_defs)

text \<open>
  Claim C2, amended. An Active tick applies the movement step, but its collision check
  reads the position the tick started with (the last rendered one, which the previous
  tick produced): the outcome of the check does not depend on the keys held during the
  tick, and the position the movement step produced is read by the check of the next
  tick.
\<close>

theorem collision_reads_committed_position:
  assumes "gameState s = Active"
  shows
    "player (gameLoop now rnd s) = movePlayer (keysPressed s) (player s) \<and>
     gameState (gameLoop now rnd s) =
       collisionDetection (PlayerState.x (player s)) (objects (gameLoop now rnd s)) Active \<and>
     gameState (gameLoop now rnd (s\<lparr>keysPressed := ks\<rparr>)) = gameState (gameLoop now rnd s) \<and>
     (gameState (gameLoop now rnd s) = Active \<longrightarrow>
        gameState (gameLoop now' rnd' (gameLoop now rnd s)) =
          collisionDetection (PlayerState.x (movePlayer (keysPressed s) (player s)))
            (objects (gameLoop now' rnd' (gameLoop now rnd s))) Active)"
proof -
  have 1: "player (gameLoop now rnd s) = movePlayer (keysPressed s) (player s)"
    using assms by (simp add: player_gameLoop)
  have 2: "gameState (gameLoop now rnd s) =
       collisionDetection (PlayerState.x (player s)) (objects (gameLoop now rnd s)) Active"
    using assms by (simp add: gameState_gameLoop)
  have 3: "gameState (gameLoop now rnd (s\<lparr>keysPressed := ks\<rparr>)) = gameState (gameLoop now rnd s)"
    by (simp add: gameLoop_def Let_def)
  have 4: "gameState (gameLoop now' rnd' (gameLoop now rnd s)) =
          collisionDetection (PlayerState.x (movePlayer (keysPressed s) (player s)))
            (objects (gameLoop now' rnd' (gameLoop now rnd s))) Active"
    if "gameState (gameLoop now rnd s) = Active"
    using that gameState_gameLoop [of now' rnd' "gameLoop now rnd s"] 1 by simp
  from 1 2 3 4 show ?thesis by blast
qed

theorem collision_reads_committed_position_witness:
  "gameState sideApproach = Active \<and>
   PlayerState.x (player (gameLoop (t0 + 3056) 0 sideApproach)) = 278 \<and>
   gameState (gameLoop (t0 + 3056) 0 sideApproach) = Active \<and>
   gameState (gameLoop (t0 + 3056) 0 (sideApproach\<lparr>keysPressed := {}\<rparr>)) = Active \<and>
   gameState (gameLoop (t0 + 3072) 0 (gameLoop (t0 + 3056) 0 sideApproach)) = GameOver"
proof -
  have a: "gameState sideApproach = Active" by (simp add: sideApproach_eq nearMiss_def)
  have b: "PlayerState.x (player (gameLoop (t0 + 3056) 0 sideApproach)) = 278"
    "gameState (gameLoop (t0 + 3056) 0 sideApproach) = Active"
    by (simp_all add: sideApproach_eq nearMiss_def eval_defs)
  have c: "gameState (gameLoop (t0 + 3072) 0 (gameLoop (t0 + 3056) 0 sideApproach)) = GameOver"
    by (simp add: sideApproach_eq nearMiss_def eval_defs)
  show ?thesis
    using a b c collision_reads_committed_position [OF a, of "t0 + 3056" 0 "{}" "t0 + 3072" 0]
    by simp
qed

subsection \<open>C3: the overlap test\<close>

text \<open>
  Claim C3 says that an Active tick ends in GameOver if and only if an object of the
  post-movement set overlaps the player's rectangle, and says so of every object. Read
  with the player's rectangle of that tick, it fails. In \<open>backOff\<close> the player stands at
  278 holding ArrowLeft, and the oldest object, at \<open>x = 330\<close>, enters the player's row. The
  tick moves the player back to 270, where no object of the post-movement set overlaps the
  player any more, yet the tick ends in GameOver: the check compared against 278. Read of
  every object, it fails as well: the tick from \<open>lastTick\<close> ends in GameOver, while the
  second object of its post-movement set, at \<open>y = 615\<close>, overlaps the player at neither
  position.
\<close>

theorem collision_iff_overlap_counterexample:
  "gameState backOff = Active \<and>
   PlayerState.x (player backOff) = 278 \<and>
   PlayerState.x (player (gameLoop (t0 + 3072) 0 backOff)) = 270 \<and>
   hd (objects (gameLoop (t0 + 3072) 0 backOff)) =
     \<lparr>FallingObject.id = 1700000000016, x = 330, y = 743, size = 25\<rparr> \<and>
   filter (overlaps (PlayerState.x (player (gameLoop (t0 + 3072) 0 backOff))))
     (objects (gameLoop (t0 + 3072) 0 backOff)) = [] \<and>
   gameState (gameLoop (t0 + 3072) 0 backOff) = GameOver \<and>
   gameState lastTick = Active \<and>
   gameState (gameLoop (t0 + 3072) 0 lastTick) = GameOver \<and>
   objects (gameLoop (t0 + 3072) 0 lastTick) ! 1 =
     \<lparr>FallingObject.id = 1700000000528, x = 330, y = 615, size = 25\<rparr> \<and>
   \<not> overlaps (PlayerState.x (player lastTick))
       (objects (gameLoop (t0 + 3072) 0 lastTick) ! 1) \<and>
   \<not> overlaps (PlayerState.x (player (gameLoop (t0 + 3072) 0 lastTick)))
       (objects (gameLoop (t0 + 3072) 0 lastTick) ! 1)"
  by (simp add: backOff_eq lastTick_eq eval_defs)

text \<open>
  Claim C3, amended. An Active tick ends in GameOver if and only if at least one object of
  the post-movement set overlaps, with the four strict inequalities of the source, the
  player's rectangle at the position the tick started with: \<^verbatim>\<open>player.x\<close> is the value the
  game loop's closure holds, the position before this tick's movement step.
\<close>

theorem collision_iff_overlap:
  assumes "gameState s = Active"
  shows "gameState (gameLoop now rnd s) = GameOver \<longleftrightarrow>
    (\<exists>obj \<in> set (objects (gameLoop now rnd s)).
       FallingObject.y obj + FallingObject.size obj > PLAYER_Y_POSITION \<and>
       FallingObject.y obj < PLAYER_Y_POSITION + PLAYER_HEIGHT \<and>
       FallingObject.x obj + FallingObject.size obj > PlayerState.x (player s) \<and>
       FallingObject.x obj < PlayerState.x (player s) + PLAYER_WIDTH)"
  using assms by (simp add: gameLoop_def Let_def collisionDetection_iff overlaps_def)

theorem collision_iff_overlap_witness:
  "gameState lastTick = Active \<and>
   gameState (gameLoop (t0 + 3072) 0 lastTick) = GameOver \<and>
   (\<exists>obj \<in> set (objects (gameLoop (t0 + 3072) 0 lastTick)).
       FallingObject.y obj + FallingObject.size obj > PLAYER_Y_POSITION \<and>
       FallingObject.y obj < PLAYER_Y_POSITION + PLAYER_HEIGHT \<and>
       FallingObject.x obj + FallingObject.size obj > PlayerState.x (player lastTick) \<and>
       FallingObject.x obj < PlayerState.x (player lastTick) + PLAYER_WIDTH)"
proof -
  have a: "gameState lastTick = Active" by (simp add: lastTick_eq)
  have b: "gameState (gameLoop (t0 + 3072) 0 lastTick) = GameOver"
    by (simp add: lastTick_eq eval_defs)
  show ?thesis using a b collision_iff_overlap [OF a, of "t0 + 3072" 0] by simp
qed

subsection \<open>C4: scoring\<close>

text \<open>
  Claim C4. A tick of the game loop raises the score by exactly 1 when it starts in the
  state Active, also when that tick detects a collision and ends in GameOver, and leaves
  the score as it is when it starts in Ready, Paused or GameOver.
\<close>

theorem score_counts_active_ticks:
  "(gameState s = Active \<longrightarrow> score (gameLoop now rnd s) = score s + 1) \<and>
   (gameState s \<noteq> Active \<longrightarrow> score (gameLoop now rnd s) = score s)"
  by (simp add: gameLoop_def Let_def)

theorem score_counts_active_ticks_witness:
  "gameState lastTick = Active \<and>
   gameState (gameLoop (t0 + 3072) 0 lastTick) = GameOver \<and>
   score lastTick = 191 \<and> score (gameLoop (t0 + 3072) 0 lastTick) = 192 \<and>
   gameState gameOverArmed \<noteq> Active \<and>
   score (gameLoop (t0 + 3088) 0 gameOverArmed) = score gameOverArmed"
proof -
  have a: "gameState lastTick = Active" "score lastTick = 191"
    by (simp_all add: lastTick_def sideApproach_def nearMiss_def eval_defs)
  have b: "gameState (gameLoop (t0 + 3072) 0 lastTick) = GameOver"
    by (simp add: lastTick_def sideApproach_def nearMiss_def eval_defs)
  have c: "gameState gameOverArmed \<noteq> Active"
    by (simp add: gameOverArmed_def lastTick_def sideApproach_def nearMiss_def eval_defs)
  show ?thesis
    using a b c score_counts_active_ticks [of lastTick "t0 + 3072" 0]
      score_counts_active_ticks [of gameOverArmed "t0 + 3088" 0]
    by simp
qed

subsection \<open>C5: player movement\<close>

text \<open>
  Claim C5. For every held-key set and position, the movement step yields the old position
  minus the speed if ArrowLeft is held plus the speed if ArrowRight is held, clamped to
  \<open>[0, GAME_WIDTH - PLAYER_WIDTH]\<close>, and changes nothing else of the player; an Active
  tick applies this step, so after it the player's position lies in that interval.
\<close>

theorem player_movement_clamped:
  "PlayerState.x (movePlayer keys p) =
     clamp (PlayerState.x p - PLAYER_SPEED * held ''ArrowLeft'' keys
                            + PLAYER_SPEED * held ''ArrowRight'' keys)
           0 (GAME_WIDTH - PLAYER_WIDTH) \<and>
   width (movePlayer keys p) = width p \<and> height (movePlayer keys p) = height p \<and>
   (gameState s = Active \<longrightarrow>
      player (gameLoop now rnd s) = movePlayer (keysPressed s) (player s) \<and>
      0 \<le> PlayerState.x (player (gameLoop now rnd s)) \<and>
      PlayerState.x (player (gameLoop now rnd s)) \<le> GAME_WIDTH - PLAYER_WIDTH)"
proof -
  have "PlayerState.x (movePlayer keys p) =
     clamp (PlayerState.x p - PLAYER_SPEED * held ''ArrowLeft'' keys
                            + PLAYER_SPEED * held ''ArrowRight'' keys)
           0 (GAME_WIDTH - PLAYER_WIDTH)"
    by (simp add: movePlayer_def Let_def clamp_def held_def game_constants)
  moreover have "width (movePlayer keys p) = width p \<and> height (movePlayer keys p) = height p"
    by (simp add: movePlayer_def Let_def)
  ultimately show ?thesis
    using movePlayer_range [of "keysPressed s" "player s"] by (simp add: player_gameLoop)
qed

theorem player_movement_clamped_witness:
  "gameState sideApproach = Active \<and>
   PlayerState.x (player sideApproach) = 270 \<and>
   keysPressed sideApproach = {''ArrowRight''} \<and>
   PlayerState.x (player (gameLoop (t0 + 3056) 0 sideApproach)) = 278 \<and>
   0 \<le> PlayerState.x (player (gameLoop (t0 + 3056) 0 sideApproach)) \<and>
   PlayerState.x (player (gameLoop (t0 + 3056) 0 sideApproach)) \<le> GAME_WIDTH - PLAYER_WIDTH"
proof -
  have a: "gameState sideApproach = Active" "PlayerState.x (player sideApproach) = 270"
    "keysPressed sideApproach = {''ArrowRight''}"
    by (auto simp: sideApproach_def nearMiss_def eval_defs)
  have b: "PlayerState.x (movePlayer {''ArrowRight''} (player sideApproach)) = 278"
    using a(2) by (simp add: movePlayer_def Let_def game_constants)
  show ?thesis
    using a b player_movement_clamped [of "keysPressed sideApproach" "player sideApproach"
        sideApproach "t0 + 3056" 0]
    by (simp add: game_constants)
qed

subsection \<open>C6: falling and removal of objects\<close>

text \<open>
  Claim C6. In every reachable state all objects are above \<open>GAME_HEIGHT\<close>. An Active tick
  turns each object into the same object with \<open>y\<close> increased by \<open>OBJECT_SPEED\<close> (which is
  positive) and keeps it exactly if the new \<open>y\<close> is below \<open>GAME_HEIGHT\<close>; an object that is
  dropped never comes back: no later state, after any events, holds an object with its
  identifier. Every object after the tick is such a moved object or the one spawned in
  this tick.
\<close>

theorem objects_fall_until_removed:
  assumes reach: "reachable s" and act: "gameState s = Active"
    and pend: "map_of (rafQueue s) h = Some GameLoopCb"
  shows
    "(\<forall>obj\<in>set (objects s).
        FallingObject.y obj < GAME_HEIGHT \<and>
        (FallingObject.y obj + OBJECT_SPEED < GAME_HEIGHT \<longrightarrow>
           obj\<lparr>FallingObject.y := FallingObject.y obj + OBJECT_SPEED\<rparr>
             \<in> set (objects (step (Frame h now rnd) s))) \<and>
        (FallingObject.y obj + OBJECT_SPEED \<ge> GAME_HEIGHT \<longrightarrow>
           (\<forall>es. FallingObject.id obj \<notin>
                   FallingObject.id ` set (objects (run es (step (Frame h now rnd) s)))))) \<and>
     (\<forall>obj'\<in>set (objects (step (Frame h now rnd) s)).
        FallingObject.y obj' < GAME_HEIGHT \<and>
        ((\<exists>obj\<in>set (objects s).
            obj' = obj\<lparr>FallingObject.y := FallingObject.y obj + OBJECT_SPEED\<rparr>) \<or>
         obj' = (newObject now rnd)\<lparr>FallingObject.y := - OBJECT_SIZE + OBJECT_SPEED\<rparr>)) \<and>
     0 < OBJECT_SPEED"
proof -
  let ?s' = "step (Frame h now rnd) s"
  have inv: "objectsInv s" using reach by (rule reachable_objectsInv)
  have eq: "objects ?s' = objects (gameLoop now rnd s)"
    "lastObjectSpawn ?s' = lastObjectSpawn (gameLoop now rnd s)"
    using objects_step_gameLoop [OF pend] by simp_all
  have below: "FallingObject.y obj < GAME_HEIGHT" if "obj \<in> set (objects s)" for obj
    using inv that by (simp add: objectsInv_def)
  have stays: "obj\<lparr>FallingObject.y := FallingObject.y obj + OBJECT_SPEED\<rparr> \<in> set (objects ?s')"
    if "obj \<in> set (objects s)" "FallingObject.y obj + OBJECT_SPEED < GAME_HEIGHT" for obj
    using that act by (auto simp: eq objects_gameLoop set_updatedObjects)
  have gone: "FallingObject.id obj \<notin> FallingObject.id ` set (objects (run es ?s'))"
    if "obj \<in> set (objects s)" "FallingObject.y obj + OBJECT_SPEED \<ge> GAME_HEIGHT" for obj es
  proof -
    from removed_id_absent [OF inv act that, of now rnd]
    have "FallingObject.id obj \<le> lastObjectSpawn ?s'"
      "FallingObject.id obj \<notin> FallingObject.id ` set (objects ?s')"
      by (simp_all add: eq)
    then show ?thesis by (rule absent_run)
  qed
  have new: "FallingObject.y obj' < GAME_HEIGHT \<and>
        ((\<exists>obj\<in>set (objects s).
            obj' = obj\<lparr>FallingObject.y := FallingObject.y obj + OBJECT_SPEED\<rparr>) \<or>
         obj' = (newObject now rnd)\<lparr>FallingObject.y := - OBJECT_SIZE + OBJECT_SPEED\<rparr>)"
    if "obj' \<in> set (objects ?s')" for obj'
    using that act
    by (auto simp: eq objects_gameLoop set_updatedObjects newObject_def split: if_splits)
  have "0 < OBJECT_SPEED" by (simp add: game_constants)
  with below stays gone new show ?thesis by blast
qed

theorem objects_fall_until_removed_witness:
  "reachable lastTick \<and> gameState lastTick = Active \<and>
   map_of (rafQueue lastTick) 385 = Some GameLoopCb \<and>
   hd (objects lastTick) = \<lparr>FallingObject.id = 1700000000016, x = 330, y = 739, size = 25\<rparr> \<and>
   FallingObject.y (hd (objects lastTick)) + OBJECT_SPEED < GAME_HEIGHT \<and>
   (hd (objects lastTick))\<lparr>FallingObject.y := FallingObject.y (hd (objects lastTick)) + OBJECT_SPEED\<rparr>
     \<in> set (objects (step (Frame 385 (t0 + 3072) 0) lastTick)) \<and>
   FallingObject.y (hd (objects lastTick)) < GAME_HEIGHT"
proof -
  have a: "gameState lastTick = Active" "map_of (rafQueue lastTick) 385 = Some GameLoopCb"
    "hd (objects lastTick) = \<lparr>FallingObject.id = 1700000000016, x = 330, y = 739, size = 25\<rparr>"
    by (simp_all add: lastTick_eq)
  have m: "hd (objects lastTick) \<in> set (objects lastTick)"
    by (simp add: lastTick_eq)
  have k: "FallingObject.y (hd (objects lastTick)) + OBJECT_SPEED < GAME_HEIGHT"
    by (simp add: a(3) game_constants)
  note T = objects_fall_until_removed [OF reachable_lastTick a(1) a(2), of "t0 + 3072" 0]
  from T m k have c:
    "(hd (objects lastTick))\<lparr>FallingObject.y := FallingObject.y (hd (objects lastTick)) + OBJECT_SPEED\<rparr>
       \<in> set (objects (step (Frame 385 (t0 + 3072) 0) lastTick))"
    by blast
  from T m have d: "FallingObject.y (hd (objects lastTick)) < GAME_HEIGHT"
    by blast
  show ?thesis using reachable_lastTick a k c d by simp
qed

subsection \<open>C7: the pause combo\<close>

text \<open>
  Claim C7. \<^verbatim>\<open>handlePauseCombo\<close> is what a qualifying press runs: a key-down that is not a
  repeat and leaves both arrow keys held. While Active or Paused, a press with
  \<open>now - lastComboPressTime < PAUSE_COMBO_TIMEOUT\<close> toggles the game state, returns the
  combo machine to idle (\<open>lastComboPressTime = 0\<close>) with progress 0 and cancels the
  recorded animation frame; every other press arms the machine, recording \<open>now\<close> as
  \<open>lastComboPressTime\<close> and \<open>comboStartTimeRef\<close> and requesting the animation. A press
  that toggles is a second press: the clock \<open>now\<close> is \<^verbatim>\<open>Date.now()\<close>, milliseconds since
  1970 and so at least the timeout, and then a press that finds the machine idle is never
  within the timeout. While Ready or GameOver the press changes nothing.
\<close>

theorem pause_combo_press:
  "((gameState s = Active \<or> gameState s = Paused) \<and>
    now - lastComboPressTime s < PAUSE_COMBO_TIMEOUT \<longrightarrow>
      gameState (handlePauseCombo now s) = (if gameState s = Active then Paused else Active) \<and>
      lastComboPressTime (handlePauseCombo now s) = 0 \<and>
      pauseComboProgress (handlePauseCombo now s) = 0 \<and>
      (\<forall>h. comboAnimationRef s = Some h \<and> h \<noteq> 0 \<longrightarrow>
         h \<notin> fst ` set (rafQueue (handlePauseCombo now s)))) \<and>
   ((gameState s = Active \<or> gameState s = Paused) \<and>
    \<not> now - lastComboPressTime s < PAUSE_COMBO_TIMEOUT \<longrightarrow>
      gameState (handlePauseCombo now s) = gameState s \<and>
      lastComboPressTime (handlePauseCombo now s) = now \<and>
      comboStartTimeRef (handlePauseCombo now s) = now \<and>
      comboAnimationRef (handlePauseCombo now s) = Some (rafNext s) \<and>
      (rafNext s, AnimateComboBarCb) \<in> set (rafQueue (handlePauseCombo now s))) \<and>
   (PAUSE_COMBO_TIMEOUT \<le> now \<and> lastComboPressTime s = 0 \<longrightarrow>
      \<not> now - lastComboPressTime s < PAUSE_COMBO_TIMEOUT) \<and>
   (gameState s = Ready \<or> gameState s = GameOver \<longrightarrow> handlePauseCombo now s = s) \<and>
   (''ArrowLeft'' \<in> insert key (keysPressed s) \<and> ''ArrowRight'' \<in> insert key (keysPressed s) \<longrightarrow>
      handleKeyDown key False now s =
        handlePauseCombo now (s\<lparr>keysPressed := insert key (keysPressed s)\<rparr>))"
proof -
  let ?within = "now - lastComboPressTime s < PAUSE_COMBO_TIMEOUT"
  have toggle: "gameState (handlePauseCombo now s) = (if gameState s = Active then Paused else Active) \<and>
        lastComboPressTime (handlePauseCombo now s) = 0 \<and>
        pauseComboProgress (handlePauseCombo now s) = 0 \<and>
        (\<forall>h. comboAnimationRef s = Some h \<and> h \<noteq> 0 \<longrightarrow>
           h \<notin> fst ` set (rafQueue (handlePauseCombo now s)))"
    if "gameState s = Active \<or> gameState s = Paused" "?within"
  proof -
    have "h \<notin> fst ` set (rafQueue (handlePauseCombo now s))"
      if "comboAnimationRef s = Some h" "h \<noteq> 0" for h
      using cleanupCombo_cancels [of "s\<lparr>gameState := Paused\<rparr>" h]
        cleanupCombo_cancels [of "s\<lparr>gameState := Active\<rparr>" h] that
        \<open>gameState s = Active \<or> gameState s = Paused\<close> \<open>?within\<close>
      by (auto simp: handlePauseCombo_def)
    then show ?thesis
      using that by (auto simp: handlePauseCombo_def)
  qed
  have arm: "gameState (handlePauseCombo now s) = gameState s \<and>
        lastComboPressTime (handlePauseCombo now s) = now \<and>
        comboStartTimeRef (handlePauseCombo now s) = now \<and>
        comboAnimationRef (handlePauseCombo now s) = Some (rafNext s) \<and>
        (rafNext s, AnimateComboBarCb) \<in> set (rafQueue (handlePauseCombo now s))"
    if "gameState s = Active \<or> gameState s = Paused" "\<not> ?within"
    using that
    by (auto simp: handlePauseCombo_def Let_def requestAnimationFrame_def split: prod.splits)
  have idle: "\<not> ?within" if "PAUSE_COMBO_TIMEOUT \<le> now" "lastComboPressTime s = 0"
    using that by simp
  have ignore: "handlePauseCombo now s = s" if "gameState s = Ready \<or> gameState s = GameOver"
    using that by (auto simp: handlePauseCombo_def)
  have key: "handleKeyDown key False now s =
          handlePauseCombo now (s\<lparr>keysPressed := insert key (keysPressed s)\<rparr>)"
    if "''ArrowLeft'' \<in> insert key (keysPressed s)" "''ArrowRight'' \<in> insert key (keysPressed s)"
    using that by (simp add: handleKeyDown_def Let_def)
  show ?thesis using toggle arm idle ignore key by blast
qed

theorem pause_combo_press_witness:
  "PAUSE_COMBO_TIMEOUT \<le> t0 + 3050 \<and>
   gameState nearMiss = Active \<and> lastComboPressTime nearMiss = t0 \<and>
   t0 + 3050 - lastComboPressTime nearMiss < PAUSE_COMBO_TIMEOUT \<and>
   gameState (handlePauseCombo (t0 + 3050) nearMiss) = Paused \<and>
   lastComboPressTime (handlePauseCombo (t0 + 3050) nearMiss) = 0 \<and>
   pauseComboProgress (handlePauseCombo (t0 + 3050) nearMiss) = 0 \<and>
   gameState pausedGame = Paused \<and> lastComboPressTime pausedGame = 0 \<and>
   \<not> t0 + 3050 - lastComboPressTime pausedGame < PAUSE_COMBO_TIMEOUT \<and>
   gameState (handlePauseCombo (t0 + 3050) pausedGame) = Paused \<and>
   lastComboPressTime (handlePauseCombo (t0 + 3050) pausedGame) = t0 + 3050 \<and>
   comboStartTimeRef (handlePauseCombo (t0 + 3050) pausedGame) = t0 + 3050 \<and>
   gameState gameOverArmed = GameOver \<and>
   handlePauseCombo (t0 + 3050) gameOverArmed = gameOverArmed \<and>
   handleKeyDown ''ArrowRight'' False (t0 + 3050) (step (KeyUp ''ArrowRight'') nearMiss) =
     handlePauseCombo (t0 + 3050) nearMiss"
proof -
  have c: "PAUSE_COMBO_TIMEOUT \<le> t0 + 3050" by (simp add: t0_def game_constants)
  have a: "gameState nearMiss = Active" "lastComboPressTime nearMiss = t0"
    "t0 + 3050 - lastComboPressTime nearMiss < PAUSE_COMBO_TIMEOUT"
    by (simp_all add: nearMiss_def t0_def game_constants)
  have b: "gameState pausedGame = Paused" "lastComboPressTime pausedGame = 0"
    by (simp_all add: pausedGame_eq)
  have d: "gameState gameOverArmed = GameOver" by (simp add: gameOverArmed_eq)
  have k: "''ArrowLeft'' \<in> insert ''ArrowRight'' (keysPressed (step (KeyUp ''ArrowRight'') nearMiss))"
    "''ArrowRight'' \<in> insert ''ArrowRight'' (keysPressed (step (KeyUp ''ArrowRight'') nearMiss))"
    by (simp_all add: step_def handleKeyUp_def nearMiss_def)
  have r: "(step (KeyUp ''ArrowRight'') nearMiss)
             \<lparr>keysPressed := insert ''ArrowRight'' (keysPressed (step (KeyUp ''ArrowRight'') nearMiss))\<rparr>
           = nearMiss"
    by (auto simp: nearMiss_def eval_defs)
  have f: "handleKeyDown ''ArrowRight'' False (t0 + 3050) (step (KeyUp ''ArrowRight'') nearMiss) =
     handlePauseCombo (t0 + 3050) nearMiss"
    using pause_combo_press [of "step (KeyUp ''ArrowRight'') nearMiss" "t0 + 3050" "''ArrowRight''"]
      k r by simp
  show ?thesis
    using a b c d f pause_combo_press [of nearMiss "t0 + 3050"]
      pause_combo_press [of pausedGame "t0 + 3050"]
      pause_combo_press [of gameOverArmed "t0 + 3050"]
    by simp
qed

subsection \<open>C8: spawning\<close>

text \<open>
  Claim C8. An Active tick creates exactly one object when the clock is more than
  \<open>OBJECT_SPAWN_INTERVAL\<close> past the last spawn, and none otherwise. The object is created
  with \<open>y = - OBJECT_SIZE\<close>, \<open>x\<close> in \<open>[0, GAME_WIDTH - OBJECT_SIZE]\<close> (for a random number
  in \<open>[0, 1)\<close>) and the clock as its identifier; the same tick already advances it by one
  step, like every other object.
\<close>

theorem spawn_rule:
  assumes "gameState s = Active"
  shows
    "(now - lastObjectSpawn s > OBJECT_SPAWN_INTERVAL \<longrightarrow>
        objects (gameLoop now rnd s) = updatedObjects (objects s @ [newObject now rnd]) \<and>
        objects (gameLoop now rnd s) =
          updatedObjects (objects s) @
            [(newObject now rnd)\<lparr>FallingObject.y := - OBJECT_SIZE + OBJECT_SPEED\<rparr>] \<and>
        lastObjectSpawn (gameLoop now rnd s) = now) \<and>
     (\<not> now - lastObjectSpawn s > OBJECT_SPAWN_INTERVAL \<longrightarrow>
        objects (gameLoop now rnd s) = updatedObjects (objects s) \<and>
        lastObjectSpawn (gameLoop now rnd s) = lastObjectSpawn s) \<and>
     FallingObject.id (newObject now rnd) = now \<and>
     FallingObject.y (newObject now rnd) = - OBJECT_SIZE \<and>
     FallingObject.size (newObject now rnd) = OBJECT_SIZE \<and>
     (0 \<le> rnd \<and> rnd < 1 \<longrightarrow>
        0 \<le> FallingObject.x (newObject now rnd) \<and>
        FallingObject.x (newObject now rnd) \<le> GAME_WIDTH - OBJECT_SIZE)"
proof -
  have x: "0 \<le> FallingObject.x (newObject now rnd) \<and>
        FallingObject.x (newObject now rnd) \<le> GAME_WIDTH - OBJECT_SIZE"
    if "0 \<le> rnd" "rnd < 1"
    using that by (simp add: newObject_def game_constants)
  have f: "FallingObject.id (newObject now rnd) = now \<and>
     FallingObject.y (newObject now rnd) = - OBJECT_SIZE \<and>
     FallingObject.size (newObject now rnd) = OBJECT_SIZE"
    by (simp add: newObject_def)
  show ?thesis
    using assms x f
    by (simp add: objects_gameLoop lastObjectSpawn_gameLoop updatedObjects_append
        updatedObjects_newObject)
qed

theorem spawn_rule_witness:
  "gameState nearMiss = Active \<and>
   t0 + 3088 - lastObjectSpawn nearMiss > OBJECT_SPAWN_INTERVAL \<and>
   \<not> t0 + 3056 - lastObjectSpawn nearMiss > OBJECT_SPAWN_INTERVAL \<and>
   (0::real) \<le> 1 / 2 \<and> (1 / 2 :: real) < 1 \<and>
   length (objects (gameLoop (t0 + 3088) (1 / 2) nearMiss)) = 7 \<and>
   last (objects (gameLoop (t0 + 3088) (1 / 2) nearMiss)) =
     \<lparr>FallingObject.id = t0 + 3088, x = 575 / 2, y = - 21, size = 25\<rparr> \<and>
   length (objects (gameLoop (t0 + 3056) (1 / 2) nearMiss)) = 6 \<and>
   FallingObject.x (newObject (t0 + 3088) (1 / 2)) \<le> GAME_WIDTH - OBJECT_SIZE"
proof -
  have a: "gameState nearMiss = Active" by (simp add: nearMiss_def)
  have b: "t0 + 3088 - lastObjectSpawn nearMiss > OBJECT_SPAWN_INTERVAL"
    "\<not> t0 + 3056 - lastObjectSpawn nearMiss > OBJECT_SPAWN_INTERVAL"
    by (simp_all add: nearMiss_def t0_def game_constants)
  have c: "length (updatedObjects (objects nearMiss)) = 6"
    by (simp add: nearMiss_def updatedObjects_def game_constants)
  have d: "(newObject (t0 + 3088) (1 / 2))\<lparr>FallingObject.y := - OBJECT_SIZE + OBJECT_SPEED\<rparr> =
     \<lparr>FallingObject.id = t0 + 3088, x = 575 / 2, y = - 21, size = 25\<rparr>"
    by (simp add: newObject_def game_constants)
  have r: "(0::real) \<le> 1 / 2 \<and> (1 / 2 :: real) < 1" by simp
  have e: "objects (gameLoop (t0 + 3088) (1 / 2) nearMiss) =
          updatedObjects (objects nearMiss) @
            [(newObject (t0 + 3088) (1 / 2))\<lparr>FallingObject.y := - OBJECT_SIZE + OBJECT_SPEED\<rparr>]"
    and f: "FallingObject.x (newObject (t0 + 3088) (1 / 2)) \<le> GAME_WIDTH - OBJECT_SIZE"
    using spawn_rule [OF a, of "t0 + 3088" "1 / 2"] b(1) r by blast+
  have g: "objects (gameLoop (t0 + 3056) (1 / 2) nearMiss) = updatedObjects (objects nearMiss)"
    using spawn_rule [OF a, of "t0 + 3056" "1 / 2"] b(2) by blast
  have e': "objects (gameLoop (t0 + 3088) (1 / 2) nearMiss) =
          updatedObjects (objects nearMiss) @
            [\<lparr>FallingObject.id = t0 + 3088, x = 575 / 2, y = - 21, size = 25\<rparr>]"
    by (simp only: e d)
  show ?thesis
    using a b c f by (simp add: e' g)
qed

subsection \<open>C9: start while Active or Paused\<close>

text \<open>
  Claim C9 says that the start action is a no-op while Active or Paused. \<^verbatim>\<open>resetGame\<close>
  has no such guard: invoked in the paused game of the concrete session, it resets
  score, objects and held keys and enters Active.
\<close>

theorem start_while_paused_counterexample:
  "gameState pausedGame = Paused \<and>
   score pausedGame = 190 \<and> length (objects pausedGame) = 6 \<and>
   ''ArrowLeft'' \<in> keysPressed pausedGame \<and>
   gameState (resetGame pausedGame) = Active \<and>
   score (resetGame pausedGame) = 0 \<and>
   objects (resetGame pausedGame) = [] \<and>
   keysPressed (resetGame pausedGame) = {}"
  by (simp add: pausedGame_eq nearMiss_def resetGame_def)

text \<open>
  Claim C9, amended. The start action is offered only while Ready or GameOver: the
  overlay button is bound to \<^verbatim>\<open>resetGame\<close> in those two states; while Active there is no
  button and a click changes nothing; while Paused the button is the resume action, which
  enters Active, clears the held keys and leaves player, objects and score as they are.
  \<^verbatim>\<open>resetGame\<close> itself is unguarded: whenever it runs, it resets player, objects, score
  and held keys and enters Active.
\<close>

theorem start_offered_only_when_idle:
  "(gameState s = Active \<longrightarrow> onButtonClick s = s) \<and>
   (gameState s = Paused \<longrightarrow>
      onButtonClick s = resumeGame s \<and> gameState (resumeGame s) = Active \<and>
      player (resumeGame s) = player s \<and> objects (resumeGame s) = objects s \<and>
      score (resumeGame s) = score s \<and> keysPressed (resumeGame s) = {}) \<and>
   (gameState s = Ready \<or> gameState s = GameOver \<longrightarrow> onButtonClick s = resetGame s) \<and>
   gameState (resetGame s) = Active \<and> player (resetGame s) = initialPlayer \<and>
   objects (resetGame s) = [] \<and> score (resetGame s) = 0 \<and> keysPressed (resetGame s) = {}"
  by (simp add: onButtonClick_def resetGame_def resumeGame_def)

theorem start_offered_only_when_idle_witness:
  "gameState nearMiss = Active \<and> onButtonClick nearMiss = nearMiss \<and>
   gameState pausedGame = Paused \<and> onButtonClick pausedGame = resumeGame pausedGame \<and>
   score (onButtonClick pausedGame) = 190 \<and>
   gameState gameOverArmed = GameOver \<and> score (onButtonClick gameOverArmed) = 0 \<and>
   gameState mounted = Ready \<and> gameState (onButtonClick mounted) = Active"
proof -
  have a: "gameState nearMiss = Active" "gameState pausedGame = Paused"
    "gameState gameOverArmed = GameOver" "gameState mounted = Ready"
    "score pausedGame = 190"
    by (simp_all add: nearMiss_def pausedGame_eq gameOverArmed_eq mounted_def)
  show ?thesis
    using a start_offered_only_when_idle [of nearMiss] start_offered_only_when_idle [of pausedGame]
      start_offered_only_when_idle [of gameOverArmed] start_offered_only_when_idle [of mounted]
    by simp
qed

subsection \<open>C10: both arrow keys held\<close>

text \<open>
  Claim C10. For a position already in \<open>[0, GAME_WIDTH - PLAYER_WIDTH]\<close>, the movement
  step with both ArrowLeft and ArrowRight held returns the player unchanged; as every
  reachable position is in that interval, a tick with both keys held never moves the
  player.
\<close>

theorem both_keys_cancel:
  "(0 \<le> PlayerState.x p \<and> PlayerState.x p \<le> GAME_WIDTH - PLAYER_WIDTH \<and>
    ''ArrowLeft'' \<in> keys \<and> ''ArrowRight'' \<in> keys \<longrightarrow> movePlayer keys p = p) \<and>
   (reachable s \<and> ''ArrowLeft'' \<in> keysPressed s \<and> ''ArrowRight'' \<in> keysPressed s \<longrightarrow>
      player (gameLoop now rnd s) = player s)"
proof -
  have m: "movePlayer keys p = p"
    if "0 \<le> PlayerState.x p" "PlayerState.x p \<le> GAME_WIDTH - PLAYER_WIDTH"
      "''ArrowLeft'' \<in> keys" "''ArrowRight'' \<in> keys" for keys p
    using that by (simp add: movePlayer_def Let_def game_constants)
  show ?thesis
    using m [of "player s" "keysPressed s"] reachable_player_range [of s] m [of p keys]
    by (simp add: player_gameLoop)
qed

theorem both_keys_cancel_witness:
  "0 \<le> PlayerState.x (player nearMiss) \<and>
   PlayerState.x (player nearMiss) \<le> GAME_WIDTH - PLAYER_WIDTH \<and>
   ''ArrowLeft'' \<in> keysPressed nearMiss \<and> ''ArrowRight'' \<in> keysPressed nearMiss \<and>
   reachable nearMiss \<and>
   movePlayer (keysPressed nearMiss) (player nearMiss) = player nearMiss \<and>
   player (gameLoop (t0 + 3056) 0 nearMiss) = player nearMiss"
proof -
  have a: "0 \<le> PlayerState.x (player nearMiss)"
    "PlayerState.x (player nearMiss) \<le> GAME_WIDTH - PLAYER_WIDTH"
    "''ArrowLeft'' \<in> keysPressed nearMiss" "''ArrowRight'' \<in> keysPressed nearMiss"
    by (simp_all add: nearMiss_def game_constants)
  show ?thesis
    using a reachable_nearMiss
      both_keys_cancel [of "player nearMiss" "keysPressed nearMiss" nearMiss "t0 + 3056" 0]
    by simp
qed

end
